theory Spec2Isabelle
  imports Main "HOL-Library.Word" "HOL-Library.Char_ord" "HOL-Library.List_Lexorder"
begin

section \<open>Package jsonlog: the leveled logger\<close>

subsection \<open>Severity levels\<close>

text \<open>
  \<^verbatim>\<open>type Level int8\<close>: a signed 8-bit integer, so every comparison of levels below is
  the signed one (\<open><s\<close>, \<open>\<le>s\<close>). The four constants are the values of \<^verbatim>\<open>iota\<close>.
\<close>

type_synonym Level = "8 word"

definition LevelInfo :: Level where "LevelInfo = 0"
definition LevelError :: Level where "LevelError = 1"
definition LevelFatal :: Level where "LevelFatal = 2"
definition LevelOff :: Level where "LevelOff = 3"

text \<open>\<^verbatim>\<open>func (l Level) String() string\<close>: a switch with a default branch.\<close>

definition Level_String :: "Level \<Rightarrow> string" where
  "Level_String l =
     (if l = LevelInfo then ''INFO''
      else if l = LevelError then ''ERROR''
      else if l = LevelFatal then ''FATAL''
      else [])"

subsection \<open>Go errors\<close>

text \<open>
  A value of the interface type \<^verbatim>\<open>error\<close> is \<open>None\<close> (nil) or \<open>Some e\<close>. The two
  sentinels the program meets are kept apart from all other errors, which carry their
  text. \<open>Error\<close> is the method \<^verbatim>\<open>Error()\<close>.
\<close>

datatype error = ErrServerClosed | DeadlineExceeded | ErrorString string

fun Error :: "error \<Rightarrow> string" where
  "Error ErrServerClosed = ''http: Server closed''"
| "Error DeadlineExceeded = ''context deadline exceeded''"
| "Error (ErrorString s) = s"

subsection \<open>The entry and its serialization\<close>

text \<open>
  The anonymous struct \<^verbatim>\<open>aux\<close> of \<^verbatim>\<open>print\<close>, with its five fields in declaration order.
  A \<^verbatim>\<open>map[string]string\<close> is an association list; the nil map and the map of length 0
  are both \<open>[]\<close>.
\<close>

record aux =
  Level :: string
  Time :: string
  Message :: string
  Properties :: "(string \<times> string) list"
  Trace :: string

text \<open>
  The values \<^verbatim>\<open>json.Marshal\<close> meets here: a string, a struct (its members under the
  names of their tags, in the order given), and a \<^verbatim>\<open>map[string]string\<close>.
\<close>

datatype json = JString string | JObject "(string \<times> json) list" | JMap "(string \<times> string) list"

text \<open>
  What \<^verbatim>\<open>json.Marshal\<close> makes of the struct tags: one member per field, under the name
  of its tag, in declaration order; a field tagged \<^verbatim>\<open>omitempty\<close> is left out when it is
  empty (a map of length 0, the empty string).
\<close>

definition aux_fields :: "aux \<Rightarrow> (string \<times> json) list" where
  "aux_fields a =
     [(''level'', JString (Level a)),
      (''time'', JString (Time a)),
      (''message'', JString (Message a))]
     @ (if Properties a = [] then [] else [(''properties'', JMap (Properties a))])
     @ (if Trace a = [] then [] else [(''trace'', JString (Trace a))])"

text \<open>
  What a call of \<^verbatim>\<open>print\<close> reads from outside the program: the clock, already formatted
  (\<^verbatim>\<open>time.Now().UTC().Format(time.RFC3339)\<close>), the stack dump
  (\<^verbatim>\<open>string(debug.Stack())\<close>), and the escaping that \<^verbatim>\<open>encoding/json\<close> applies to the
  bytes of a string between its double quotes.
\<close>

record runtime =
  now :: string
  stack :: string
  escape :: "string \<Rightarrow> string"

text \<open>
  The text of a value as \<^verbatim>\<open>encoding/json\<close> writes it, without white space: a string
  between double quotes; a struct as its members, separated by commas, between braces;
  a map in the same way with its keys sorted as byte strings. None of the three can
  fail, so \<^verbatim>\<open>json.Marshal\<close> returns its text and the nil error.
\<close>

fun commas :: "string list \<Rightarrow> string" where
  "commas [] = []"
| "commas [x] = x"
| "commas (x # y # zs) = x @ '','' @ commas (y # zs)"

definition quoted :: "string \<Rightarrow> string" where
  "quoted s = CHR 0x22 # s @ [CHR 0x22]"

definition lookup :: "(string \<times> string) list \<Rightarrow> string \<Rightarrow> string" where
  "lookup p k = (case map_of p k of Some v \<Rightarrow> v | None \<Rightarrow> [])"

definition map_text :: "runtime \<Rightarrow> (string \<times> string) list \<Rightarrow> string" where
  "map_text rt p =
     ''{'' @ commas (map (\<lambda>k. quoted (escape rt k) @ '':'' @ quoted (escape rt (lookup p k)))
                     (sort (remdups (map fst p)))) @ ''}''"

fun render :: "runtime \<Rightarrow> json \<Rightarrow> string" where
  "render rt (JString s) = quoted (escape rt s)"
| "render rt (JObject kvs) =
     ''{'' @ commas (map (\<lambda>(k, v). quoted k @ '':'' @ render rt v) kvs) @ ''}''"
| "render rt (JMap p) = map_text rt p"

definition json_Marshal :: "runtime \<Rightarrow> aux \<Rightarrow> error + string" where
  "json_Marshal rt a = Inr (render rt (JObject (aux_fields a)))"

subsection \<open>The logger\<close>

text \<open>
  \<^verbatim>\<open>out\<close> is the \<^verbatim>\<open>io.Writer\<close>: its method \<^verbatim>\<open>Write\<close> answers a byte string with the
  number of bytes written and an error. The mutex is not a field here: taking and
  releasing it are events of the call.
\<close>

record Logger =
  out :: "string \<Rightarrow> int \<times> error option"
  minLevel :: Level

definition New :: "(string \<Rightarrow> int \<times> error option) \<Rightarrow> Level \<Rightarrow> Logger" where
  "New w lvl = \<lparr>out = w, minLevel = lvl\<rparr>"

text \<open>
  The effects of a call, in the order the call performs them: the mutex operations, the
  bytes handed to \<^verbatim>\<open>out.Write\<close>, \<^verbatim>\<open>os.Exit\<close> with its status, and the run-time panic of
  a method call on a nil interface.
\<close>

datatype event = MtxLock | SinkWrite string | MtxUnlock | Exit int | Panic

definition newline :: char where
  "newline = CHR 0x0A"

text \<open>The entry as \<^verbatim>\<open>print\<close> fills it in: the trace only from \<^verbatim>\<open>LevelError\<close> upwards.\<close>

definition entry :: "runtime \<Rightarrow> Level \<Rightarrow> string \<Rightarrow> (string \<times> string) list \<Rightarrow> aux" where
  "entry e level message properties =
     (let a = \<lparr>Level = Level_String level, Time = now e, Message = message,
                Properties = properties, Trace = []\<rparr>
      in if LevelError \<le>s level then a\<lparr>Trace := stack e\<rparr> else a)"

text \<open>The line of the entry: its JSON text, or the plain text of the marshalling error.\<close>

definition entry_line :: "runtime \<Rightarrow> Level \<Rightarrow> string \<Rightarrow> (string \<times> string) list \<Rightarrow> string" where
  "entry_line e level message properties =
     (case json_Marshal e (entry e level message properties) of
        Inr line \<Rightarrow> line
      | Inl err \<Rightarrow> Level_String LevelError @ '': unable to marshal log message: '' @ Error err)"

text \<open>
  \<^verbatim>\<open>func (l *Logger) print(level, message, properties) (int, error)\<close>. The deferred
  \<^verbatim>\<open>Unlock\<close> runs when \<^verbatim>\<open>Write\<close> has returned, whatever it returned.
\<close>

definition print ::
  "Logger \<Rightarrow> runtime \<Rightarrow> Level \<Rightarrow> string \<Rightarrow> (string \<times> string) list
     \<Rightarrow> event list \<times> int \<times> error option" where
  "print l e level message properties =
     (if level <s minLevel l then ([], 0, None)
      else let line = entry_line e level message properties
           in ([MtxLock, SinkWrite (line @ [newline]), MtxUnlock], out l (line @ [newline])))"

text \<open>
  The three exported helpers drop what \<^verbatim>\<open>print\<close> returns. \<^verbatim>\<open>err.Error()\<close> on a nil
  \<^verbatim>\<open>error\<close> panics before \<^verbatim>\<open>print\<close> is entered.
\<close>

definition PrintInfo :: "Logger \<Rightarrow> runtime \<Rightarrow> string \<Rightarrow> (string \<times> string) list \<Rightarrow> event list" where
  "PrintInfo l e message properties = fst (print l e LevelInfo message properties)"

definition PrintError ::
  "Logger \<Rightarrow> runtime \<Rightarrow> error option \<Rightarrow> (string \<times> string) list \<Rightarrow> event list" where
  "PrintError l e err properties =
     (case err of
        None \<Rightarrow> [Panic]
      | Some x \<Rightarrow> fst (print l e LevelError (Error x) properties))"

definition PrintFatal ::
  "Logger \<Rightarrow> runtime \<Rightarrow> error option \<Rightarrow> (string \<times> string) list \<Rightarrow> event list" where
  "PrintFatal l e err properties =
     (case err of
        None \<Rightarrow> [Panic]
      | Some x \<Rightarrow> fst (print l e LevelFatal (Error x) properties) @ [Exit 1])"

text \<open>The byte strings a run hands to the sink, in order.\<close>

fun sink_writes :: "event list \<Rightarrow> string list" where
  "sink_writes [] = []"
| "sink_writes (SinkWrite b # es) = b # sink_writes es"
| "sink_writes (_ # es) = sink_writes es"

subsection \<open>Concurrent calls of print\<close>

text \<open>
  A call of \<^verbatim>\<open>print\<close> from a goroutine: its arguments and what it reads of the
  run time (clock and stack differ from call to call). Everything \<^verbatim>\<open>print\<close> does
  before \<^verbatim>\<open>l.mtx.Lock()\<close> (the threshold, the entry, \<^verbatim>\<open>json.Marshal\<close>, the
  fallback) is local to the goroutine, so the goroutine is left with the events of
  \<open>print\<close>, to be performed in that order.
\<close>

record call =
  call_runtime :: runtime
  call_level :: Level
  call_message :: string
  call_properties :: "(string \<times> string) list"

definition call_events :: "Logger \<Rightarrow> call \<Rightarrow> event list" where
  "call_events l c =
     fst (print l (call_runtime c) (call_level c) (call_message c) (call_properties c))"

definition emits :: "Logger \<Rightarrow> call \<Rightarrow> bool" where
  "emits l c = (minLevel l \<le>s call_level c)"

definition call_line :: "call \<Rightarrow> string" where
  "call_line c =
     entry_line (call_runtime c) (call_level c) (call_message c) (call_properties c) @ [newline]"

text \<open>
  The goroutines that share one logger: what each has left to do, who holds
  \<^verbatim>\<open>l.mtx\<close>, the bytes that have reached the sink, and the goroutines in the order in
  which they took the mutex.
\<close>

record pool =
  threads :: "event list list"
  holder :: "nat option"
  sink :: string
  acquired :: "nat list"

definition start_pool :: "event list list \<Rightarrow> pool" where
  "start_pool ps = \<lparr>threads = ps, holder = None, sink = [], acquired = []\<rparr>"

text \<open>
  One step of goroutine \<open>i\<close>, whose remaining events are the second argument.
  \<^verbatim>\<open>Lock\<close> goes through only when the mutex is free; \<^verbatim>\<open>Write\<close> is not atomic: the
  bytes reach the sink one step at a time, and the call returns when none is left;
  \<^verbatim>\<open>Unlock\<close> of a mutex that is not locked is a fatal error of the run time. \<open>None\<close>
  is a goroutine that cannot move. A call of \<^verbatim>\<open>print\<close> has no \<open>Exit\<close> and no
  \<open>Panic\<close> among its events.
\<close>

fun thread_step :: "nat \<Rightarrow> event list \<Rightarrow> pool \<Rightarrow> pool option" where
  "thread_step i [] s = None"
| "thread_step i (MtxLock # es) s =
     (if holder s = None
      then Some (s\<lparr>threads := (threads s)[i := es], holder := Some i,
                   acquired := acquired s @ [i]\<rparr>)
      else None)"
| "thread_step i (SinkWrite [] # es) s = Some (s\<lparr>threads := (threads s)[i := es]\<rparr>)"
| "thread_step i (SinkWrite (b # bs) # es) s =
     Some (s\<lparr>threads := (threads s)[i := SinkWrite bs # es], sink := sink s @ [b]\<rparr>)"
| "thread_step i (MtxUnlock # es) s =
     (if holder s = None then None
      else Some (s\<lparr>threads := (threads s)[i := es], holder := None\<rparr>))"
| "thread_step i (Exit n # es) s = None"
| "thread_step i (Panic # es) s = None"

definition pool_step :: "nat \<Rightarrow> pool \<Rightarrow> pool option" where
  "pool_step i s = (if i < length (threads s) then thread_step i (threads s ! i) s else None)"

text \<open>A schedule names the goroutine that moves next; a run follows a schedule.\<close>

fun pool_run :: "nat list \<Rightarrow> pool \<Rightarrow> pool option" where
  "pool_run [] s = Some s"
| "pool_run (i # js) s = (case pool_step i s of None \<Rightarrow> None | Some s' \<Rightarrow> pool_run js s')"

definition finished :: "pool \<Rightarrow> bool" where
  "finished s = list_all (\<lambda>t. t = []) (threads s)"

definition lines_of :: "call list \<Rightarrow> nat list \<Rightarrow> string" where
  "lines_of cs js = concat (map (\<lambda>j. call_line (cs ! j)) js)"

section \<open>Package main: serve\<close>

subsection \<open>What serve reads of the application\<close>

text \<open>
  \<^verbatim>\<open>app.config.port\<close> and \<^verbatim>\<open>app.config.env\<close>. \<open>Addr\<close> is the field of the server,
  \<^verbatim>\<open>fmt.Sprintf(":%d", app.config.port)\<close>.
\<close>

record config =
  port :: int
  env :: string

record application =
  config :: config

function decimal :: "nat \<Rightarrow> string" where
  "decimal n =
     (if n < 10 then [''0123456789'' ! n]
      else decimal (n div 10) @ [''0123456789'' ! (n mod 10)])"
  by pat_completeness auto
termination
  by (relation "measure (\<lambda>n. n)") auto

declare decimal.simps [simp del]

definition Addr :: "application \<Rightarrow> string" where
  "Addr app =
     '':'' @ (if port (config app) < 0 then ''-'' @ decimal (nat (- port (config app)))
             else decimal (nat (port (config app))))"

text \<open>The two signals of \<^verbatim>\<open>signal.Notify\<close>, and \<^verbatim>\<open>s.String()\<close>.\<close>

datatype signal = SIGINT | SIGTERM

fun Signal_String :: "signal \<Rightarrow> string" where
  "Signal_String SIGINT = ''interrupt''"
| "Signal_String SIGTERM = ''terminated''"

text \<open>\<^verbatim>\<open>errors.Is\<close> on errors that wrap nothing: the error is the target.\<close>

definition errors_Is :: "error option \<Rightarrow> error \<Rightarrow> bool" where
  "errors_Is err target = (err = Some target)"

subsection \<open>The two threads of serve\<close>

text \<open>
  The thread that called \<^verbatim>\<open>serve\<close>, by the statement it is at:
  \<^item> \<open>M_start\<close>: the goroutine is started, \<^verbatim>\<open>PrintInfo("starting server", ...)\<close> is next;
  \<^item> \<open>M_listen\<close>: about to call \<^verbatim>\<open>server.ListenAndServe()\<close>; \<open>M_serving\<close>: inside it;
  \<^item> \<open>M_check err\<close>: at \<^verbatim>\<open>if !errors.Is(err, http.ErrServerClosed)\<close>;
  \<^item> \<open>M_recv\<close>: about to execute \<^verbatim>\<open>err = <-shutdownError\<close>; \<open>M_receiving\<close>: blocked in it;
  \<^item> \<open>M_got err\<close>: at \<^verbatim>\<open>if err != nil\<close> with the value received;
  \<^item> \<open>M_stopped\<close>: about to log \<open>stopped server\<close> and return nil;
  \<^item> \<open>M_ret r\<close>: \<^verbatim>\<open>serve\<close> has returned \<open>r\<close>.
\<close>

datatype main_pc =
    M_start
  | M_listen
  | M_serving
  | M_check "error option"
  | M_recv
  | M_receiving
  | M_got "error option"
  | M_stopped
  | M_ret "error option"

text \<open>
  The goroutine started by \<^verbatim>\<open>serve\<close>:
  \<^item> \<open>W_quit\<close>: blocked in \<^verbatim>\<open>s := <-quit\<close>; \<open>W_shutting s\<close>: about to log
    \<open>shutting down server\<close>;
  \<^item> \<open>W_shutdown\<close>: about to call \<^verbatim>\<open>server.Shutdown(ctx)\<close>; \<open>W_draining\<close>: inside it;
  \<^item> \<open>W_check err\<close>: at \<^verbatim>\<open>if err != nil\<close>;
  \<^item> \<open>W_send_err err\<close>: about to execute \<^verbatim>\<open>shutdownError <- err\<close>;
    \<open>W_sending_err err\<close>: blocked in it (the channel has no buffer);
  \<^item> \<open>W_completing\<close>: about to log \<open>completing background tasks\<close>. It is the statement
    after the \<^verbatim>\<open>if\<close>, reached from both of its branches;
  \<^item> \<open>W_wait\<close>: about to call \<^verbatim>\<open>app.wg.Wait()\<close>; \<open>W_waiting\<close>: inside it;
  \<^item> \<open>W_send_nil\<close>: about to execute \<^verbatim>\<open>shutdownError <- nil\<close>; \<open>W_sending_nil\<close>:
    blocked in it;
  \<^item> \<open>W_end\<close>: the goroutine is over.
\<close>

datatype watcher_pc =
    W_quit
  | W_shutting signal
  | W_shutdown
  | W_draining
  | W_check "error option"
  | W_send_err "error option"
  | W_sending_err "error option"
  | W_completing
  | W_wait
  | W_waiting
  | W_send_nil
  | W_sending_nil
  | W_end

text \<open>
  What the threads do that can be seen from outside, each with the thread that did it:
  the calls of \<^verbatim>\<open>app.logger.PrintInfo\<close> with message and properties, and the calls and
  returns of the blocking operations.
\<close>

datatype thread = MainT | WatcherT

datatype obs =
    Log string "(string \<times> string) list"
  | ListenCalled
  | ListenReturned error
  | ReceiveCalled
  | Received "error option"
  | SignalReceived signal
  | ShutdownCalled
  | ShutdownReturned "error option"
  | SendCalled "error option"
  | SendCompleted
  | WaitCalled
  | WaitReturned

text \<open>
  The state of a run: where the two threads are, whether \<^verbatim>\<open>Shutdown\<close> has been called
  on the server, the counter of \<^verbatim>\<open>app.wg\<close>, and what has happened so far.
\<close>

record system =
  main :: main_pc
  watcher :: watcher_pc
  closing :: bool
  tasks :: nat
  trace :: "(thread \<times> obs) list"

definition init :: system where
  "init = \<lparr>main = M_start, watcher = W_quit, closing = False, tasks = 0, trace = []\<rparr>"

definition emit :: "thread \<Rightarrow> obs list \<Rightarrow> system \<Rightarrow> system" where
  "emit t os s = s\<lparr>trace := trace s @ map (Pair t) os\<rparr>"

definition start_log :: "application \<Rightarrow> obs" where
  "start_log app = Log ''starting server'' [(''env'', env (config app)), (''addr'', Addr app)]"

definition shutting_log :: "signal \<Rightarrow> obs" where
  "shutting_log sg = Log ''shutting down server'' [(''signal'', Signal_String sg)]"

definition completing_log :: "application \<Rightarrow> obs" where
  "completing_log app = Log ''completing background tasks'' [(''addr'', Addr app)]"

definition stopped_log :: "application \<Rightarrow> obs" where
  "stopped_log app = Log ''stopped server'' [(''addr'', Addr app)]"

text \<open>The next statement of the calling thread; \<open>None\<close> where it is blocked or over.\<close>

definition main_step :: "application \<Rightarrow> system \<Rightarrow> system option" where
  "main_step app s =
     (case main s of
        M_start \<Rightarrow> Some (emit MainT [start_log app] (s\<lparr>main := M_listen\<rparr>))
      | M_listen \<Rightarrow> Some (emit MainT [ListenCalled] (s\<lparr>main := M_serving\<rparr>))
      | M_serving \<Rightarrow> None
      | M_check err \<Rightarrow>
          (if \<not> errors_Is err ErrServerClosed then Some (s\<lparr>main := M_ret err\<rparr>)
           else Some (s\<lparr>main := M_recv\<rparr>))
      | M_recv \<Rightarrow> Some (emit MainT [ReceiveCalled] (s\<lparr>main := M_receiving\<rparr>))
      | M_receiving \<Rightarrow> None
      | M_got err \<Rightarrow>
          (if err \<noteq> None then Some (s\<lparr>main := M_ret err\<rparr>)
           else Some (s\<lparr>main := M_stopped\<rparr>))
      | M_stopped \<Rightarrow> Some (emit MainT [stopped_log app] (s\<lparr>main := M_ret None\<rparr>))
      | M_ret r \<Rightarrow> None)"

text \<open>
  The next statement of the goroutine. After \<^verbatim>\<open>shutdownError <- err\<close> there is no
  \<^verbatim>\<open>return\<close>: control goes on to the statement after the \<^verbatim>\<open>if\<close> (see \<open>rendezvous\<close>).
\<close>

definition watcher_step :: "application \<Rightarrow> system \<Rightarrow> system option" where
  "watcher_step app s =
     (case watcher s of
        W_quit \<Rightarrow> None
      | W_shutting sg \<Rightarrow> Some (emit WatcherT [shutting_log sg] (s\<lparr>watcher := W_shutdown\<rparr>))
      | W_shutdown \<Rightarrow>
          Some (emit WatcherT [ShutdownCalled] (s\<lparr>watcher := W_draining, closing := True\<rparr>))
      | W_draining \<Rightarrow> None
      | W_check err \<Rightarrow>
          (if err \<noteq> None then Some (s\<lparr>watcher := W_send_err err\<rparr>)
           else Some (s\<lparr>watcher := W_completing\<rparr>))
      | W_send_err err \<Rightarrow>
          Some (emit WatcherT [SendCalled err] (s\<lparr>watcher := W_sending_err err\<rparr>))
      | W_sending_err err \<Rightarrow> None
      | W_completing \<Rightarrow> Some (emit WatcherT [completing_log app] (s\<lparr>watcher := W_wait\<rparr>))
      | W_wait \<Rightarrow> Some (emit WatcherT [WaitCalled] (s\<lparr>watcher := W_waiting\<rparr>))
      | W_waiting \<Rightarrow> None
      | W_send_nil \<Rightarrow> Some (emit WatcherT [SendCalled None] (s\<lparr>watcher := W_sending_nil\<rparr>))
      | W_sending_nil \<Rightarrow> None
      | W_end \<Rightarrow> None)"

text \<open>
  The channel \<^verbatim>\<open>shutdownError\<close> is made without a buffer: a send and the receive
  complete together, when both threads are blocked in them.
\<close>

definition rendezvous :: "system \<Rightarrow> system option" where
  "rendezvous s =
     (case (main s, watcher s) of
        (M_receiving, W_sending_err err) \<Rightarrow>
          Some (emit MainT [Received err]
                  (emit WatcherT [SendCompleted]
                     (s\<lparr>main := M_got err, watcher := W_completing\<rparr>)))
      | (M_receiving, W_sending_nil) \<Rightarrow>
          Some (emit MainT [Received None]
                  (emit WatcherT [SendCompleted] (s\<lparr>main := M_got None, watcher := W_end\<rparr>)))
      | _ \<Rightarrow> None)"

text \<open>
  The moves of a run: a statement of one of the threads, the hand-over on the channel,
  and what comes from outside the two threads: a signal is delivered on \<^verbatim>\<open>quit\<close>;
  \<^verbatim>\<open>ListenAndServe\<close> returns an error, \<^verbatim>\<open>http.ErrServerClosed\<close> only once
  \<^verbatim>\<open>Shutdown\<close> has been called; \<^verbatim>\<open>Shutdown\<close> returns nil or an error; \<^verbatim>\<open>Wait\<close>
  returns when the counter is zero; a background task begins (\<^verbatim>\<open>wg.Add(1)\<close>) or ends
  (\<^verbatim>\<open>wg.Done()\<close>).
\<close>

datatype move =
    Main
  | Watcher
  | Rendezvous
  | Signal signal
  | Listen_returns error
  | Shutdown_returns "error option"
  | Wait_returns
  | Task_begins
  | Task_ends

fun step :: "application \<Rightarrow> move \<Rightarrow> system \<Rightarrow> system option" where
  "step app Main s = main_step app s"
| "step app Watcher s = watcher_step app s"
| "step app Rendezvous s = rendezvous s"
| "step app (Signal sg) s =
     (if watcher s = W_quit
      then Some (emit WatcherT [SignalReceived sg] (s\<lparr>watcher := W_shutting sg\<rparr>))
      else None)"
| "step app (Listen_returns e) s =
     (if main s = M_serving \<and> (if e = ErrServerClosed then closing s else True)
      then Some (emit MainT [ListenReturned e] (s\<lparr>main := M_check (Some e)\<rparr>))
      else None)"
| "step app (Shutdown_returns r) s =
     (if watcher s = W_draining
      then Some (emit WatcherT [ShutdownReturned r] (s\<lparr>watcher := W_check r\<rparr>))
      else None)"
| "step app Wait_returns s =
     (if watcher s = W_waiting \<and> tasks s = 0
      then Some (emit WatcherT [WaitReturned] (s\<lparr>watcher := W_send_nil\<rparr>))
      else None)"
| "step app Task_begins s = Some (s\<lparr>tasks := Suc (tasks s)\<rparr>)"
| "step app Task_ends s = (if tasks s = 0 then None else Some (s\<lparr>tasks := tasks s - 1\<rparr>))"

fun run :: "application \<Rightarrow> move list \<Rightarrow> system \<Rightarrow> system option" where
  "run app [] s = Some s"
| "run app (m # ms) s = (case step app m s of None \<Rightarrow> None | Some s' \<Rightarrow> run app ms s')"

subsection \<open>Reading a trace\<close>

definition of_thread :: "thread \<Rightarrow> (thread \<times> obs) list \<Rightarrow> obs list" where
  "of_thread t tr = map snd (filter (\<lambda>x. fst x = t) tr)"

fun is_log :: "obs \<Rightarrow> bool" where
  "is_log (Log m p) = True"
| "is_log _ = False"

definition logs :: "(thread \<times> obs) list \<Rightarrow> obs list" where
  "logs tr = filter is_log (map snd tr)"

text \<open>The values of the send statements executed, and the values received.\<close>

fun sends :: "obs list \<Rightarrow> error option list" where
  "sends [] = []"
| "sends (SendCalled v # os) = v # sends os"
| "sends (_ # os) = sends os"

fun receipts :: "obs list \<Rightarrow> error option list" where
  "receipts [] = []"
| "receipts (Received v # os) = v # receipts os"
| "receipts (_ # os) = receipts os"

subsection \<open>The clean shutdown\<close>




section \<open>Sample inputs\<close>

text \<open>
  A sink that takes every byte, a sink that takes none, and a run time whose strings
  need no escaping.
\<close>

definition accepting :: "string \<Rightarrow> int \<times> error option" where
  "accepting b = (int (length b), None)"

definition broken :: "string \<Rightarrow> int \<times> error option" where
  "broken b = (0, Some (ErrorString ''write: broken pipe''))"

definition sample_env :: runtime where
  "sample_env =
     \<lparr>now = ''2024-05-01T12:00:00Z'',
      stack = ''goroutine 1 [running]:'',
      escape = (\<lambda>s. s)\<rparr>"

text \<open>Three concurrent calls, the second below the threshold.\<close>

definition three_calls :: "call list" where
  "three_calls =
     [\<lparr>call_runtime = sample_env, call_level = LevelError, call_message = ''boom'',
        call_properties = []\<rparr>,
      \<lparr>call_runtime = sample_env, call_level = LevelInfo, call_message = ''x'',
        call_properties = []\<rparr>,
      \<lparr>call_runtime = sample_env, call_level = LevelFatal, call_message = ''bye'',
        call_properties = [(''addr'', '':80'')]\<rparr>]"






text \<open>
  A request outlasts the grace period, so that \<^verbatim>\<open>Shutdown\<close> returns
  \<^verbatim>\<open>context.DeadlineExceeded\<close>. In \<open>failed_drain\<close> no background task is outstanding
  and the goroutine runs on while the calling thread has just received the error; in
  \<open>stalled_drain\<close> one background task is outstanding and \<^verbatim>\<open>serve\<close> returns.
\<close>

definition failed_drain :: "move list" where
  "failed_drain =
     [Main, Main, Signal SIGTERM, Watcher, Watcher, Shutdown_returns (Some DeadlineExceeded),
      Listen_returns ErrServerClosed, Main, Main, Watcher, Watcher, Rendezvous,
      Watcher, Watcher, Wait_returns, Watcher]"

definition stalled_drain :: "move list" where
  "stalled_drain =
     [Main, Main, Task_begins, Signal SIGTERM, Watcher, Watcher,
      Shutdown_returns (Some DeadlineExceeded), Listen_returns ErrServerClosed, Main, Main,
      Watcher, Watcher, Rendezvous, Main, Watcher, Watcher]"

section \<open>Invariants\<close>

subsection \<open>The calling thread of serve\<close>

text \<open>What the calling thread has done so far, by the statement it is at.\<close>

fun main_ok :: "application \<Rightarrow> main_pc \<Rightarrow> obs list \<Rightarrow> bool" where
  "main_ok app M_start h = (h = [])"
| "main_ok app M_listen h = (h = [start_log app])"
| "main_ok app M_serving h = (h = [start_log app, ListenCalled])"
| "main_ok app (M_check err) h =
     (\<exists>e. err = Some e \<and> h = [start_log app, ListenCalled, ListenReturned e])"
| "main_ok app M_recv h = (h = [start_log app, ListenCalled, ListenReturned ErrServerClosed])"
| "main_ok app M_receiving h =
     (h = [start_log app, ListenCalled, ListenReturned ErrServerClosed, ReceiveCalled])"
| "main_ok app (M_got v) h =
     (h = [start_log app, ListenCalled, ListenReturned ErrServerClosed, ReceiveCalled, Received v])"
| "main_ok app M_stopped h =
     (h = [start_log app, ListenCalled, ListenReturned ErrServerClosed, ReceiveCalled,
           Received None])"
| "main_ok app (M_ret r) h =
     (\<exists>e. h = [start_log app, ListenCalled, ListenReturned e]
            @ (if errors_Is (Some e) ErrServerClosed
               then [ReceiveCalled, Received r] @ (if r = None then [stopped_log app] else [])
               else [])
          \<and> (\<not> errors_Is (Some e) ErrServerClosed \<longrightarrow> r = Some e))"

subsection \<open>The clean shutdown\<close>








subsection \<open>Concurrent calls of print\<close>

text \<open>
  The goroutines that took the mutex are distinct calls at or above the threshold; a
  goroutine that has not taken it has done nothing yet; all but the last to take it are
  over; the holder is the last to take it and is inside \<^verbatim>\<open>Write\<close> or about to unlock;
  the sink, with the bytes the holder has still to write, is the lines of these
  goroutines, whole, in the order in which they took the mutex.
\<close>

definition pool_inv :: "Logger \<Rightarrow> call list \<Rightarrow> pool \<Rightarrow> bool" where
  "pool_inv l cs s =
     (length (threads s) = length cs \<and> distinct (acquired s) \<and>
      (\<forall>i \<in> set (acquired s). i < length cs \<and> emits l (cs ! i)) \<and>
      (\<forall>i < length cs. i \<notin> set (acquired s) \<longrightarrow> threads s ! i = call_events l (cs ! i)) \<and>
      (case holder s of
         None \<Rightarrow>
           (\<forall>i \<in> set (acquired s). threads s ! i = []) \<and> sink s = lines_of cs (acquired s)
       | Some h \<Rightarrow>
           acquired s \<noteq> [] \<and> last (acquired s) = h \<and>
           (\<forall>i \<in> set (butlast (acquired s)). threads s ! i = []) \<and>
           (\<exists>bs. (threads s ! h = [SinkWrite bs, MtxUnlock] \<or>
                    bs = [] \<and> threads s ! h = [MtxUnlock]) \<and>
                 sink s @ bs = lines_of cs (acquired s))))"

section \<open>Properties of the logger\<close>

lemma level_consts_distinct:
  "LevelInfo \<noteq> LevelError" "LevelInfo \<noteq> LevelFatal" "LevelInfo \<noteq> LevelOff"
  "LevelError \<noteq> LevelFatal" "LevelError \<noteq> LevelOff" "LevelFatal \<noteq> LevelOff"
  by (simp_all add: LevelInfo_def LevelError_def LevelFatal_def LevelOff_def)

lemma sless_not_sle: "(a :: Level) <s b \<longleftrightarrow> \<not> b \<le>s a"
  by (simp add: signed.not_le)

text \<open>
  C10. \<^verbatim>\<open>String\<close> names the three levels that are emitted \<open>INFO\<close>, \<open>ERROR\<close> and
  \<open>FATAL\<close>; \<^verbatim>\<open>LevelOff\<close> and every other value of the type get the empty string, and
  so the \<open>level\<close> member of an entry built at such a level is the empty string.
\<close>

theorem Level_String_table:
  "Level_String LevelInfo = ''INFO'' \<and>
   Level_String LevelError = ''ERROR'' \<and>
   Level_String LevelFatal = ''FATAL'' \<and>
   Level_String LevelOff = [] \<and>
   (l \<noteq> LevelInfo \<and> l \<noteq> LevelError \<and> l \<noteq> LevelFatal \<longrightarrow>
      Level_String l = [] \<and>
      hd (aux_fields (entry e l m p)) = (''level'', JString []))"
  using level_consts_distinct
  by (simp add: Level_String_def aux_fields_def entry_def Let_def)

theorem Level_String_table_witness:
  "(-1 :: Level) \<noteq> LevelInfo \<and> -1 \<noteq> LevelError \<and> -1 \<noteq> LevelFatal \<and>
   Level_String (-1) = [] \<and>
   hd (aux_fields (entry sample_env (-1) ''x'' [])) = (''level'', JString [])"
proof -
  have h: "(-1 :: Level) \<noteq> LevelInfo \<and> -1 \<noteq> LevelError \<and> -1 \<noteq> LevelFatal"
    by (simp add: LevelInfo_def LevelError_def LevelFatal_def)
  with Level_String_table [of "-1" sample_env "''x''" "[]"] show ?thesis
    by blast
qed

lemma print_emits:
  "minLevel l \<le>s L \<Longrightarrow>
   print l e L m p =
     ([MtxLock, SinkWrite (entry_line e L m p @ [newline]), MtxUnlock],
      out l (entry_line e L m p @ [newline]))"
  by (simp add: print_def Let_def sless_not_sle)

lemma print_drops: "L <s minLevel l \<Longrightarrow> print l e L m p = ([], 0, None)"
  by (simp add: print_def)

lemma entry_line_text:
  "entry_line rt L m p = render rt (JObject (aux_fields (entry rt L m p)))"
  by (simp add: entry_line_def json_Marshal_def)

lemma sample_error_line:
  \<open>entry_line sample_env LevelError ''boom'' [(''addr'', '':80'')] =
     ''{"level":"ERROR","time":"2024-05-01T12:00:00Z","message":"boom",''
     @ ''"properties":{"addr":":80"},"trace":"goroutine 1 [running]:"}''\<close>
  by (simp add: entry_line_text entry_def aux_fields_def sample_env_def map_text_def lookup_def
      Level_String_def level_consts_distinct level_consts_distinct [symmetric] quoted_def)

text \<open>
  C3. A call of \<^verbatim>\<open>print\<close> at level \<open>L\<close> on a logger built with threshold \<open>T\<close> hands
  bytes to the sink exactly when \<open>T \<le> L\<close>, and then it is the one line of the entry
  between taking and releasing the mutex; when \<open>L < T\<close> the call has no effect at all
  and returns 0 bytes and the nil error.
\<close>

theorem print_threshold:
  "(sink_writes (fst (print (New w T) e L m p)) \<noteq> [] \<longleftrightarrow> T \<le>s L) \<and>
   (T \<le>s L \<longrightarrow>
      fst (print (New w T) e L m p) =
        [MtxLock, SinkWrite (entry_line e L m p @ [newline]), MtxUnlock]) \<and>
   (L <s T \<longrightarrow> print (New w T) e L m p = ([], 0, None))"
  by (simp add: print_def New_def Let_def sless_not_sle)

theorem print_threshold_witness:
  \<open>LevelInfo <s LevelError \<and>
   print (New accepting LevelError) sample_env LevelInfo ''x'' [] = ([], 0, None) \<and>
   LevelError \<le>s LevelError \<and>
   fst (print (New accepting LevelError) sample_env LevelError ''boom'' [(''addr'', '':80'')]) =
     [MtxLock,
      SinkWrite (''{"level":"ERROR","time":"2024-05-01T12:00:00Z","message":"boom",''
        @ ''"properties":{"addr":":80"},"trace":"goroutine 1 [running]:"}'' @ [newline]),
      MtxUnlock]\<close>
proof -
  have a: "LevelInfo <s LevelError"
    by (simp add: LevelInfo_def LevelError_def word_sless_alt)
  have b: "LevelError \<le>s LevelError"
    by simp
  from a b sample_error_line
    print_threshold [of accepting LevelError sample_env LevelInfo "''x''" "[]"]
    print_threshold [of accepting LevelError sample_env LevelError "''boom''"
      "[(''addr'', '':80'')]"]
  show ?thesis
    by simp
qed

text \<open>
  C4, as the code has it. For a non-nil error, \<^verbatim>\<open>PrintFatal\<close> writes the one line of the
  entry when the threshold is at most \<^verbatim>\<open>LevelFatal\<close> and nothing when it is above (as
  \<^verbatim>\<open>LevelOff\<close> is); in both cases the last thing it does is \<^verbatim>\<open>os.Exit(1)\<close>, after the
  write and whatever the write returned.
\<close>

theorem PrintFatal_events:
  "PrintFatal l e (Some x) p =
     (if LevelFatal <s minLevel l then []
      else [MtxLock, SinkWrite (entry_line e LevelFatal (Error x) p @ [newline]), MtxUnlock])
     @ [Exit 1]"
  by (simp add: PrintFatal_def print_def Let_def)

theorem PrintFatal_events_witness:
  \<open>PrintFatal (New broken LevelInfo) sample_env (Some DeadlineExceeded) [] =
     [MtxLock,
      SinkWrite (''{"level":"FATAL","time":"2024-05-01T12:00:00Z",''
        @ ''"message":"context deadline exceeded","trace":"goroutine 1 [running]:"}''
        @ [newline]),
      MtxUnlock, Exit 1]\<close>
proof -
  have "\<not> LevelFatal <s minLevel (New broken LevelInfo)"
    by (simp add: New_def LevelInfo_def LevelFatal_def word_sless_alt)
  moreover have "LevelError \<le>s LevelFatal"
    by (simp add: LevelError_def LevelFatal_def word_sle_eq)
  then have \<open>entry_line sample_env LevelFatal (Error DeadlineExceeded) [] =
      ''{"level":"FATAL","time":"2024-05-01T12:00:00Z",''
      @ ''"message":"context deadline exceeded","trace":"goroutine 1 [running]:"}''\<close>
    by (simp add: entry_line_text entry_def aux_fields_def sample_env_def Level_String_def
        level_consts_distinct level_consts_distinct [symmetric] quoted_def)
  ultimately show ?thesis
    using PrintFatal_events [of "New broken LevelInfo" sample_env DeadlineExceeded "[]"]
    by simp
qed

text \<open>
  The claim C4 as written fails: with the threshold \<^verbatim>\<open>LevelOff\<close> the fatal call writes
  no entry before it exits, and with the nil error it panics before \<^verbatim>\<open>print\<close> is
  entered.
\<close>

theorem PrintFatal_off_counterexample:
  "PrintFatal (New accepting LevelOff) sample_env (Some (ErrorString ''boom'')) [] = [Exit 1] \<and>
   sink_writes (PrintFatal (New accepting LevelOff) sample_env (Some (ErrorString ''boom'')) []) = []
   \<and> PrintFatal (New accepting LevelInfo) sample_env None [] = [Panic]"
  by (simp add: PrintFatal_def print_def New_def LevelFatal_def LevelOff_def word_sless_alt)

text \<open>
  \<^verbatim>\<open>json.Marshal\<close> returns no error for the struct of \<^verbatim>\<open>print\<close>, so the branch that
  replaces the line by the text of the error is never taken.
\<close>

lemma json_Marshal_succeeds: "json_Marshal rt a \<noteq> Inl err"
  by (simp add: json_Marshal_def)

text \<open>
  C7. Every call of \<^verbatim>\<open>print\<close> at or above the threshold writes one line, the JSON text
  of the entry and a newline. The members of the text are \<open>level\<close>, \<open>time\<close> and
  \<open>message\<close>, then \<open>properties\<close> (the map with its keys sorted) unless the map passed in
  is empty, then \<open>trace\<close> exactly when the level is \<^verbatim>\<open>LevelError\<close> or above, in this
  order. The stack dump of the Go runtime is never the empty string, which is the
  hypothesis on the environment.
\<close>

theorem serialized_fields:
  assumes "minLevel l \<le>s L" and "stack rt \<noteq> []"
  shows \<open>sink_writes (fst (print l rt L m p)) =
    [''{"level":'' @ quoted (escape rt (Level_String L))
     @ '',"time":'' @ quoted (escape rt (now rt))
     @ '',"message":'' @ quoted (escape rt m)
     @ (if p = [] then [] else '',"properties":'' @ map_text rt p)
     @ (if LevelError \<le>s L then '',"trace":'' @ quoted (escape rt (stack rt)) else [])
     @ ''}'' @ [newline]]\<close>
  using assms
  by (simp add: print_emits entry_line_text entry_def aux_fields_def Let_def quoted_def)

theorem serialized_fields_witness:
  \<open>minLevel (New accepting LevelInfo) \<le>s LevelError \<and> stack sample_env \<noteq> [] \<and>
   sink_writes (fst (print (New accepting LevelInfo) sample_env LevelError ''boom''
       [(''env'', ''dev''), (''addr'', '':80'')])) =
     [''{"level":"ERROR","time":"2024-05-01T12:00:00Z","message":"boom",''
      @ ''"properties":{"addr":":80","env":"dev"},"trace":"goroutine 1 [running]:"}''
      @ [newline]] \<and>
   minLevel (New accepting LevelInfo) \<le>s LevelInfo \<and>
   sink_writes (fst (print (New accepting LevelInfo) sample_env LevelInfo ''starting server'' [])) =
     [''{"level":"INFO","time":"2024-05-01T12:00:00Z","message":"starting server"}''
      @ [newline]]\<close>
proof -
  have a: "minLevel (New accepting LevelInfo) \<le>s LevelError"
    by (simp add: New_def LevelInfo_def LevelError_def word_sle_eq)
  have b: "minLevel (New accepting LevelInfo) \<le>s LevelInfo"
    by (simp add: New_def)
  have c: "stack sample_env \<noteq> []"
    by (simp add: sample_env_def)
  have d: "LevelError \<le>s LevelError" "\<not> LevelError \<le>s LevelInfo"
    by (simp_all add: LevelError_def LevelInfo_def word_sle_eq)
  have k: "sort (remdups [''env'', ''addr'']) = [''addr'', ''env'']"
    by simp
  from a b c d
    serialized_fields [OF a c, of "''boom''" "[(''env'', ''dev''), (''addr'', '':80'')]"]
    serialized_fields [OF b c, of "''starting server''" "[]"]
  show ?thesis
    by (simp add: map_text_def lookup_def k sample_env_def Level_String_def quoted_def
        level_consts_distinct level_consts_distinct [symmetric])
qed

section \<open>Properties of concurrent calls of print\<close>

lemma call_events_cases:
  "call_events l c = (if emits l c then [MtxLock, SinkWrite (call_line c), MtxUnlock] else [])"
  by (simp add: call_events_def emits_def call_line_def print_def Let_def sless_not_sle)

lemma lines_of_snoc: "lines_of cs (js @ [i]) = lines_of cs js @ call_line (cs ! i)"
  by (simp add: lines_of_def)

lemma pool_inv_start: "pool_inv l cs (start_pool (map (call_events l) cs))"
  by (simp add: pool_inv_def start_pool_def lines_of_def)

lemma in_butlast_neq_last: "distinct xs \<Longrightarrow> i \<in> set (butlast xs) \<Longrightarrow> i \<noteq> last xs"
  by (cases xs rule: rev_cases) auto

lemma set_split_last: "xs \<noteq> [] \<Longrightarrow> set xs = insert (last xs) (set (butlast xs))"
  by (cases xs rule: rev_cases) auto

lemma finished_nth: "finished s \<Longrightarrow> i < length (threads s) \<Longrightarrow> threads s ! i = []"
  by (simp add: finished_def list_all_length)

subsection \<open>Every step keeps the invariant\<close>

lemma pool_inv_lock:
  assumes inv: "pool_inv l cs s" and free: "holder s = None" and i: "i < length cs"
    and new: "i \<notin> set (acquired s)" and em: "emits l (cs ! i)"
  shows "pool_inv l cs
    (s\<lparr>threads := (threads s)[i := [SinkWrite (call_line (cs ! i)), MtxUnlock]],
       holder := Some i, acquired := acquired s @ [i]\<rparr>)"
  using assms
  by (auto simp: pool_inv_def lines_of_snoc nth_list_update)

lemma pool_inv_write_byte:
  assumes inv: "pool_inv l cs s" and h: "holder s = Some h"
    and t: "threads s ! h = [SinkWrite (b # bs), MtxUnlock]"
  shows "pool_inv l cs
    (s\<lparr>threads := (threads s)[h := [SinkWrite bs, MtxUnlock]], sink := sink s @ [b]\<rparr>)"
proof -
  from inv h have hl: "h < length cs" and d: "distinct (acquired s)" and ne: "acquired s \<noteq> []"
    and la: "last (acquired s) = h"
    by (auto simp: pool_inv_def)
  have hin: "h \<in> set (acquired s)"
    using ne la by auto
  have other: "i \<noteq> h" if "i \<in> set (butlast (acquired s))" for i
    using in_butlast_neq_last [OF d that] la by simp
  show ?thesis
    using inv h t hl hin other
    by (auto simp: pool_inv_def nth_list_update)
qed

lemma pool_inv_write_end:
  assumes inv: "pool_inv l cs s" and h: "holder s = Some h"
    and t: "threads s ! h = [SinkWrite [], MtxUnlock]"
  shows "pool_inv l cs (s\<lparr>threads := (threads s)[h := [MtxUnlock]]\<rparr>)"
proof -
  from inv h have hl: "h < length cs" and d: "distinct (acquired s)" and ne: "acquired s \<noteq> []"
    and la: "last (acquired s) = h"
    by (auto simp: pool_inv_def)
  have hin: "h \<in> set (acquired s)"
    using ne la by auto
  have other: "i \<noteq> h" if "i \<in> set (butlast (acquired s))" for i
    using in_butlast_neq_last [OF d that] la by simp
  show ?thesis
    using inv h t hl hin other
    by (auto simp: pool_inv_def nth_list_update)
qed

lemma pool_inv_unlock:
  assumes inv: "pool_inv l cs s" and h: "holder s = Some h" and t: "threads s ! h = [MtxUnlock]"
  shows "pool_inv l cs (s\<lparr>threads := (threads s)[h := []], holder := None\<rparr>)"
proof -
  from inv h have hl: "h < length cs" and ne: "acquired s \<noteq> []" and la: "last (acquired s) = h"
    by (auto simp: pool_inv_def)
  have hin: "h \<in> set (acquired s)"
    using ne la by auto
  have split: "set (acquired s) = insert h (set (butlast (acquired s)))"
    using set_split_last [OF ne] la by simp
  show ?thesis
    using inv h t hl hin split
    by (auto simp: pool_inv_def nth_list_update)
qed

lemma pool_inv_step:
  assumes inv: "pool_inv l cs s" and st: "pool_step i s = Some s'"
  shows "pool_inv l cs s'"
proof -
  from st have il: "i < length (threads s)" and ts: "thread_step i (threads s ! i) s = Some s'"
    by (auto simp: pool_step_def split: if_splits)
  from inv il have ic: "i < length cs"
    by (simp add: pool_inv_def)
  show ?thesis
  proof (cases "holder s")
    case None
    have new: "i \<notin> set (acquired s)"
    proof
      assume "i \<in> set (acquired s)"
      with inv None have "threads s ! i = []"
        by (auto simp: pool_inv_def)
      with ts show False by simp
    qed
    with inv ic have t: "threads s ! i = call_events l (cs ! i)"
      by (simp add: pool_inv_def)
    with ts have em: "emits l (cs ! i)"
      by (auto simp: call_events_cases split: if_splits)
    with t ts None
    have "s' = s\<lparr>threads := (threads s)[i := [SinkWrite (call_line (cs ! i)), MtxUnlock]],
       holder := Some i, acquired := acquired s @ [i]\<rparr>"
      by (simp add: call_events_cases)
    with pool_inv_lock [OF inv None ic new em] show ?thesis
      by simp
  next
    case (Some h)
    from inv Some have ne: "acquired s \<noteq> []" and la: "last (acquired s) = h"
      and over: "\<forall>j \<in> set (butlast (acquired s)). threads s ! j = []"
      by (auto simp: pool_inv_def)
    have ih: "i = h"
    proof (rule ccontr)
      assume neq: "i \<noteq> h"
      show False
      proof (cases "i \<in> set (acquired s)")
        case True
        with neq la set_split_last [OF ne] have "i \<in> set (butlast (acquired s))"
          by auto
        with over ts show False by simp
      next
        case False
        with inv ic have "threads s ! i = call_events l (cs ! i)"
          by (simp add: pool_inv_def)
        with ts Some show False
          by (auto simp: call_events_cases split: if_splits)
      qed
    qed
    from inv Some obtain bs where
      "threads s ! h = [SinkWrite bs, MtxUnlock] \<or> threads s ! h = [MtxUnlock]"
      by (auto simp: pool_inv_def)
    then show ?thesis
    proof
      assume w: "threads s ! h = [SinkWrite bs, MtxUnlock]"
      show ?thesis
      proof (cases bs)
        case Nil
        with w ts ih pool_inv_write_end [OF inv Some] show ?thesis
          by simp
      next
        case (Cons b bs')
        with w ts ih pool_inv_write_byte [OF inv Some, of b bs'] show ?thesis
          by simp
      qed
    next
      assume u: "threads s ! h = [MtxUnlock]"
      with ts ih Some pool_inv_unlock [OF inv Some] show ?thesis
        by simp
    qed
  qed
qed

lemma pool_inv_run:
  "pool_inv l cs s \<Longrightarrow> pool_run js s = Some s' \<Longrightarrow> pool_inv l cs s'"
proof (induction js arbitrary: s)
  case Nil
  then show ?case by simp
next
  case (Cons i js)
  then show ?case
    by (auto split: option.splits dest: pool_inv_step)
qed

subsection \<open>What the invariant gives\<close>

lemma pool_inv_finished:
  assumes inv: "pool_inv l cs s" and fin: "finished s"
  shows "sink s = lines_of cs (acquired s) \<and>
    set (acquired s) = {i. i < length cs \<and> emits l (cs ! i)} \<and>
    length (acquired s) = length (filter (emits l) cs)"
proof -
  from inv have len: "length (threads s) = length cs" and d: "distinct (acquired s)"
    by (simp_all add: pool_inv_def)
  have free: "holder s = None"
  proof (cases "holder s")
    case (Some h)
    with inv have "h < length cs" and "threads s ! h \<noteq> []"
      by (auto simp: pool_inv_def)
    with fin len show ?thesis
      by (simp add: finished_nth)
  qed simp
  have "i \<in> set (acquired s)" if "i < length cs" and "emits l (cs ! i)" for i
  proof (rule ccontr)
    assume "i \<notin> set (acquired s)"
    with inv that have "threads s ! i \<noteq> []"
      by (simp add: pool_inv_def call_events_cases)
    with fin len that show False
      by (simp add: finished_nth)
  qed
  with inv have eq: "set (acquired s) = {i. i < length cs \<and> emits l (cs ! i)}"
    by (auto simp: pool_inv_def)
  have "length (acquired s) = card (set (acquired s))"
    using d by (simp add: distinct_card)
  with eq have "length (acquired s) = length (filter (emits l) cs)"
    by (simp add: length_filter_conv_card)
  with inv free eq show ?thesis
    by (simp add: pool_inv_def)
qed

lemma pool_inv_progress:
  assumes inv: "pool_inv l cs s" and nf: "\<not> finished s"
  shows "\<exists>i. pool_step i s \<noteq> None"
proof (cases "holder s")
  case None
  from nf obtain i where i: "i < length (threads s)" and t: "threads s ! i \<noteq> []"
    by (auto simp: finished_def list_all_length)
  with inv None have "i \<notin> set (acquired s)"
    by (auto simp: pool_inv_def)
  with inv i have "threads s ! i = call_events l (cs ! i)"
    by (simp add: pool_inv_def)
  with t have "threads s ! i = [MtxLock, SinkWrite (call_line (cs ! i)), MtxUnlock]"
    by (simp add: call_events_cases split: if_splits)
  with i None have "pool_step i s \<noteq> None"
    by (simp add: pool_step_def)
  then show ?thesis ..
next
  case (Some h)
  with inv have h: "h < length (threads s)"
    by (auto simp: pool_inv_def)
  from inv Some obtain bs where
    "threads s ! h = [SinkWrite bs, MtxUnlock] \<or> threads s ! h = [MtxUnlock]"
    by (auto simp: pool_inv_def)
  with h Some have "pool_step h s \<noteq> None"
    by (cases bs) (auto simp: pool_step_def)
  then show ?thesis ..
qed

lemma pool_inv_prefix:
  assumes inv: "pool_inv l cs s"
  shows "\<exists>bs. sink s @ bs = lines_of cs (acquired s)"
  using inv by (cases "holder s") (auto simp: pool_inv_def)

text \<open>
  C9. Let any number of goroutines call \<^verbatim>\<open>print\<close> on one logger, and take any
  interleaving of their steps, the bytes of a \<^verbatim>\<open>Write\<close> reaching the sink one step at
  a time. At every moment the sink is a prefix of the whole lines of the calls that took
  the mutex, in the order in which they took it. While a call is unfinished some
  goroutine can move. When all calls are over, the sink is exactly these lines, each
  the newline-terminated line of one call; the calls among them are the calls at or
  above the threshold, each once, so that the number of lines is the number of such
  calls. The line of a call is made before the call takes the mutex: only the write
  is between \<^verbatim>\<open>Lock\<close> and \<^verbatim>\<open>Unlock\<close>.
\<close>

theorem concurrent_print:
  assumes "pool_run js (start_pool (map (call_events l) cs)) = Some s"
  shows "map (call_events l) cs =
      map (\<lambda>c. if emits l c then [MtxLock, SinkWrite (call_line c), MtxUnlock] else []) cs \<and>
    distinct (acquired s) \<and>
    (\<exists>bs. sink s @ bs = lines_of cs (acquired s)) \<and>
    (finished s \<longrightarrow>
       sink s = lines_of cs (acquired s) \<and>
       set (acquired s) = {i. i < length cs \<and> emits l (cs ! i)} \<and>
       length (acquired s) = length (filter (emits l) cs)) \<and>
    (\<not> finished s \<longrightarrow> (\<exists>i. pool_step i s \<noteq> None))"
proof -
  have inv: "pool_inv l cs s"
    using pool_inv_start assms by (rule pool_inv_run)
  then have "distinct (acquired s)"
    by (simp add: pool_inv_def)
  moreover have "map (call_events l) cs =
      map (\<lambda>c. if emits l c then [MtxLock, SinkWrite (call_line c), MtxUnlock] else []) cs"
    by (simp add: call_events_cases)
  ultimately show ?thesis
    using pool_inv_prefix [OF inv] pool_inv_finished [OF inv] pool_inv_progress [OF inv]
    by blast
qed

text \<open>
  A goroutine that is left alone goes through its whole call: the lock, one step for each
  byte, the return of \<^verbatim>\<open>Write\<close>, the unlock.
\<close>

lemma write_alone:
  "holder s = Some i \<Longrightarrow> i < length (threads s) \<Longrightarrow>
   threads s ! i = [SinkWrite bs, MtxUnlock] \<Longrightarrow>
   pool_run (replicate (length bs + 2) i) s =
     Some (s\<lparr>threads := (threads s)[i := []], holder := None, sink := sink s @ bs\<rparr>)"
proof (induction bs arbitrary: s)
  case Nil
  then show ?case
    by (simp add: pool_step_def numeral_2_eq_2)
next
  case (Cons b bs)
  let ?t = "s\<lparr>threads := (threads s)[i := [SinkWrite bs, MtxUnlock]], sink := sink s @ [b]\<rparr>"
  from Cons.prems have st: "pool_step i s = Some ?t"
    by (simp add: pool_step_def)
  from Cons.prems have "pool_run (replicate (length bs + 2) i) ?t =
      Some (?t\<lparr>threads := (threads ?t)[i := []], holder := None, sink := sink ?t @ bs\<rparr>)"
    by (intro Cons.IH) simp_all
  with st show ?case
    by simp
qed

lemma call_alone:
  assumes "holder s = None" and "i < length (threads s)"
    and "threads s ! i = [MtxLock, SinkWrite bs, MtxUnlock]"
  shows "pool_run (replicate (length bs + 3) i) s =
     Some (s\<lparr>threads := (threads s)[i := []], holder := None, sink := sink s @ bs,
             acquired := acquired s @ [i]\<rparr>)"
proof -
  let ?t = "s\<lparr>threads := (threads s)[i := [SinkWrite bs, MtxUnlock]], holder := Some i,
      acquired := acquired s @ [i]\<rparr>"
  from assms have st: "pool_step i s = Some ?t"
    by (simp add: pool_step_def)
  from assms have "pool_run (replicate (length bs + 2) i) ?t =
      Some (?t\<lparr>threads := (threads ?t)[i := []], holder := None, sink := sink ?t @ bs\<rparr>)"
    by (intro write_alone) simp_all
  moreover have "replicate (length bs + 3) i = i # replicate (length bs + 2) i"
    by (simp add: numeral_3_eq_3 numeral_2_eq_2)
  ultimately show ?thesis
    using st by simp
qed

lemma pool_run_append:
  "pool_run (is @ js) s = (case pool_run is s of None \<Rightarrow> None | Some t \<Rightarrow> pool_run js t)"
  by (induction "is" arbitrary: s) (auto split: option.splits)

lemma three_calls_events:
  "map (call_events (New accepting LevelError)) three_calls =
     [[MtxLock, SinkWrite (call_line (three_calls ! 0)), MtxUnlock], [],
      [MtxLock, SinkWrite (call_line (three_calls ! 2)), MtxUnlock]]"
  by (simp add: three_calls_def call_events_cases emits_def New_def LevelInfo_def LevelError_def
      LevelFatal_def word_sle_eq)

lemma three_calls_run:
  "pool_run (replicate (length (call_line (three_calls ! 2)) + 3) 2
       @ replicate (length (call_line (three_calls ! 0)) + 3) 0)
     (start_pool (map (call_events (New accepting LevelError)) three_calls)) =
   Some \<lparr>threads = [[], [], []], holder = None,
     sink = call_line (three_calls ! 2) @ call_line (three_calls ! 0), acquired = [2, 0]\<rparr>"
  unfolding pool_run_append three_calls_events
  by (simp add: call_alone start_pool_def)

theorem concurrent_print_witness:
  "\<exists>s. pool_run (replicate (length (call_line (three_calls ! 2)) + 3) 2
             @ replicate (length (call_line (three_calls ! 0)) + 3) 0)
          (start_pool (map (call_events (New accepting LevelError)) three_calls)) = Some s \<and>
        finished s \<and>
        sink s = call_line (three_calls ! 2) @ call_line (three_calls ! 0) \<and>
        sink s = lines_of three_calls (acquired s) \<and>
        length (acquired s) = length (filter (emits (New accepting LevelError)) three_calls)"
proof -
  obtain s where r: "pool_run (replicate (length (call_line (three_calls ! 2)) + 3) 2
             @ replicate (length (call_line (three_calls ! 0)) + 3) 0)
      (start_pool (map (call_events (New accepting LevelError)) three_calls)) = Some s"
    and f: "finished s"
    and k: "sink s = call_line (three_calls ! 2) @ call_line (three_calls ! 0)"
    using three_calls_run by (simp add: finished_def)
  from concurrent_print [OF r] f k r show ?thesis
    by blast
qed

section \<open>Properties of serve\<close>

lemma of_thread_emit [simp]:
  "of_thread t (trace (emit u os s)) = of_thread t (trace s) @ (if t = u then os else [])"
  by (induction os) (auto simp: of_thread_def emit_def)

lemma emit_sel [simp]:
  "main (emit t os s) = main s" "watcher (emit t os s) = watcher s"
  "closing (emit t os s) = closing s" "tasks (emit t os s) = tasks s"
  by (simp_all add: emit_def)

lemma logs_emit [simp]: "logs (trace (emit t os s)) = logs (trace s) @ filter is_log os"
  by (simp add: logs_def emit_def comp_def)

lemma is_log_simps [simp]:
  "is_log (start_log app)" "is_log (stopped_log app)" "is_log (shutting_log sg)"
  "is_log (completing_log app)"
  by (simp_all add: start_log_def stopped_log_def shutting_log_def completing_log_def)



subsection \<open>The calling thread\<close>

lemma main_ok_step:
  assumes "main_ok app (main s) (of_thread MainT (trace s))" and "step app m s = Some s'"
  shows "main_ok app (main s') (of_thread MainT (trace s'))"
  using assms
  by (cases m)
    (auto simp: main_step_def watcher_step_def rendezvous_def errors_Is_def
      split: main_pc.splits watcher_pc.splits if_splits)

lemma main_ok_run:
  "main_ok app (main s) (of_thread MainT (trace s)) \<Longrightarrow> run app ms s = Some s' \<Longrightarrow>
   main_ok app (main s') (of_thread MainT (trace s'))"
proof (induction ms arbitrary: s)
  case Nil
  then show ?case by simp
next
  case (Cons m ms)
  then show ?case
    by (auto split: option.splits dest: main_ok_step)
qed

lemma main_ok_init: "main_ok app (main init) (of_thread MainT (trace init))"
  by (simp add: init_def of_thread_def)

text \<open>
  However the run goes, \<^verbatim>\<open>serve\<close> takes at most one value from the channel: a send
  that the goroutine begins after that stays blocked.
\<close>

lemma received_at_most_once:
  assumes "run app ms init = Some s"
  shows "length (receipts (of_thread MainT (trace s))) \<le> 1"
proof -
  have "main_ok app (main s) (of_thread MainT (trace s))"
    using main_ok_init assms by (rule main_ok_run)
  then show ?thesis
    by (cases "main s")
      (auto simp: start_log_def stopped_log_def errors_Is_def split: if_splits)
qed














subsection \<open>The failed drain\<close>

text \<open>
  C1, on the code. \<^verbatim>\<open>Shutdown\<close> returns \<^verbatim>\<open>context.DeadlineExceeded\<close>. The goroutine
  sends it, the calling thread receives it, and the goroutine, which has no \<^verbatim>\<open>return\<close>
  after the send, goes on through \<^verbatim>\<open>Wait\<close> to \<^verbatim>\<open>shutdownError <- nil\<close>: it has
  executed two send statements on the channel, the error and then nil, and is blocked
  in the second one while the calling thread is still at \<^verbatim>\<open>if err != nil\<close>.
\<close>

theorem failed_drain_sends_twice:
  "map_option (\<lambda>s. (main s, watcher s, sends (of_thread WatcherT (trace s))))
     (run app failed_drain init) =
   Some (M_got (Some DeadlineExceeded), W_sending_nil, [Some DeadlineExceeded, None])"
  by (simp add: failed_drain_def init_def main_step_def watcher_step_def rendezvous_def
      emit_def errors_Is_def of_thread_def shutting_log_def completing_log_def)

text \<open>
  C2, on the code. The same failure with one background task outstanding: the error is
  delivered and \<^verbatim>\<open>serve\<close> returns it, and after the delivery the goroutine logs
  \<open>completing background tasks\<close> and calls \<^verbatim>\<open>app.wg.Wait()\<close>, where it stays, since the
  counter is not zero.
\<close>

theorem failed_drain_still_waits:
  "map_option (\<lambda>s. (main s, watcher s, tasks s, step app Wait_returns s,
        of_thread WatcherT (trace s)))
     (run app stalled_drain init) =
   Some (M_ret (Some DeadlineExceeded), W_waiting, 1, None,
     [SignalReceived SIGTERM, shutting_log SIGTERM, ShutdownCalled,
      ShutdownReturned (Some DeadlineExceeded), SendCalled (Some DeadlineExceeded),
      SendCompleted, completing_log app, WaitCalled])"
  by (simp add: stalled_drain_def init_def main_step_def watcher_step_def rendezvous_def
      emit_def errors_Is_def of_thread_def)

subsection \<open>The clean shutdown\<close>













end
